theory Spec2Isabelle
  imports Complex_Main
begin

section \<open>Values exchanged with the recognition service\<close>

text \<open>
  \<open>response.data\<close> is whatever axios parsed from the body. An object is its property
  list, read with \<open>map_of\<close>. Numbers coming out of JSON are finite, so they are
  modelled as reals; comparing two finite doubles is exact.
\<close>

datatype jsval =
    JUndefined
  | JNull
  | JBool bool
  | JNum real
  | JStr string
  | JArr "jsval list"
  | JObj "(string \<times> jsval) list"

text \<open>What \<open>if (v)\<close> and \<open>v && ...\<close> test.\<close>

fun truthy :: "jsval \<Rightarrow> bool" where
  "truthy JUndefined = False"
| "truthy JNull = False"
| "truthy (JBool b) = b"
| "truthy (JNum n) = (n \<noteq> 0)"
| "truthy (JStr s) = (s \<noteq> [])"
| "truthy (JArr xs) = True"
| "truthy (JObj ps) = True"

text \<open>
  Property access \<open>v.k\<close> on a truthy value: a missing property, and any property of a
  primitive or of an array other than its built-in ones, reads as \<open>undefined\<close>.
\<close>

fun js_get :: "string \<Rightarrow> jsval \<Rightarrow> jsval" where
  "js_get k (JObj ps) = (case map_of ps k of Some v \<Rightarrow> v | None \<Rightarrow> JUndefined)"
| "js_get k v = JUndefined"

text \<open>How the awaited \<open>axios.post\<close> ends: with a response body, or rejected with an
  error, of which only the message is read.\<close>

datatype outcome = Resolved jsval | Rejected string

section \<open>ObjectRecognition.js\<close>

definition getConfidenceColor :: "real \<Rightarrow> string" where
  "getConfidenceColor confidence =
     (if confidence \<ge> 0.8 then ''high-confidence''
      else if confidence \<ge> 0.5 then ''medium-confidence''
      else ''low-confidence'')"

text \<open>
  Whether rendering \<open>ObjectRecognition\<close> with the prop \<open>objects\<close> goes through. The body
  reads \<open>objects.length\<close>, shows the placeholder when that is 0, and otherwise calls
  \<open>objects.map\<close>, reading \<open>obj.name\<close> and \<open>obj.confidence\<close> of each item and placing
  \<open>obj.name\<close> as a child. It throws when \<open>objects\<close> is \<open>null\<close>, when \<open>objects.map\<close> is
  not a function (every value that is not an array; only an empty string and an object
  whose \<open>length\<close> is 0 get the placeholder instead), when an item is \<open>null\<close>, and when
  React is given a plain object as a child. An absent prop takes the default \<open>[]\<close>.
  The arithmetic on \<open>obj.confidence\<close> never throws.
\<close>

fun validChild :: "jsval \<Rightarrow> bool" where
  "validChild (JObj ps) = False"
| "validChild (JArr xs) = list_all validChild xs"
| "validChild v = True"

definition itemRenders :: "jsval \<Rightarrow> bool" where
  "itemRenders obj \<longleftrightarrow> obj \<noteq> JNull \<and> obj \<noteq> JUndefined \<and> validChild (js_get ''name'' obj)"

fun presentable :: "jsval \<Rightarrow> bool" where
  "presentable JUndefined = True"
| "presentable JNull = False"
| "presentable (JBool b) = False"
| "presentable (JNum n) = False"
| "presentable (JStr s) = (s = [])"
| "presentable (JArr xs) = list_all itemRenders xs"
| "presentable (JObj ps) = (map_of ps ''length'' = Some (JNum 0))"

section \<open>The application state\<close>

text \<open>
  Everything the two components and the browser hold between two events:
  the four \<open>useState\<close> cells of \<open>App\<close>, the two \<open>useState\<close> cells and the two refs of
  \<open>WebcamCapture\<close>, the intervals the browser has scheduled, and the environment
  (the frame \<open>getScreenshot\<close> would return now, the requests awaiting an answer).
  \<open>calls\<close> records, in order, what the capture component did to the outside:
  the callbacks it invoked on \<open>App\<close>, each \<open>getScreenshot\<close> and each POST.
  \<open>cleared\<close> records, in order, the handles \<open>clearInterval\<close> was called with.
  \<open>crashed\<close> says that a render has thrown and React has taken the page down.

  \<open>webcamRef\<close> holds whether \<open>webcamRef.current\<close> is non-null. React attaches the ref
  when \<open>WebcamCapture\<close> mounts and resets it on unmount, so the field also says
  whether the component is mounted.

  \<open>setInterval\<close> returns a positive integer, so a stored handle is always truthy:
  \<open>captureInterval\<close> is \<open>None\<close> for \<open>null\<close> and \<open>Some h\<close> otherwise.
\<close>

datatype timer_callback =
    Direct    \<comment> \<open>\<open>setInterval(captureAndRecognize, 3000)\<close> of \<open>startCapturing\<close>\<close>
  | Guarded   \<comment> \<open>the arrow function of the mount effect, which tests the ref first\<close>

datatype call =
    OnStartCapture
  | OnStopCapture
  | OnRecognitionStart
  | OnObjectsRecognized jsval
  | OnError string
  | GetScreenshot
  | Post string

record world =
  recognizedObjects :: jsval
  isRecognizing :: bool
  error :: "string option"
  isCapturing :: bool
  captureInterval :: "nat option"
  isCameraReady :: bool
  webcamRef :: bool
  isCapturingRef :: bool
  timers :: "(nat \<times> timer_callback) list"
  lastHandle :: nat
  frame :: "string option"
  inflight :: nat
  calls :: "call list"
  cleared :: "nat list"
  crashed :: bool

text \<open>The page after its first render: \<open>App\<close> and \<open>WebcamCapture\<close> mounted, nothing scheduled.\<close>

definition init :: world where
  "init = \<lparr> recognizedObjects = JArr [], isRecognizing = False, error = None,
            isCapturing = False, captureInterval = None, isCameraReady = False,
            webcamRef = True, isCapturingRef = False, timers = [], lastHandle = 0,
            frame = None, inflight = 0, calls = [], cleared = [], crashed = False \<rparr>"

subsection \<open>The browser's timers\<close>

definition setInterval :: "timer_callback \<Rightarrow> world \<Rightarrow> nat \<times> world" where
  "setInterval cb s =
     (let h = Suc (lastHandle s)
      in (h, s\<lparr>timers := timers s @ [(h, cb)], lastHandle := h\<rparr>))"

definition clearInterval :: "nat \<Rightarrow> world \<Rightarrow> world" where
  "clearInterval h s =
     s\<lparr>timers := filter (\<lambda>t. fst t \<noteq> h) (timers s), cleared := cleared s @ [h]\<rparr>"

section \<open>App.js: the coordinator's handlers\<close>

definition handleObjectsRecognized :: "jsval \<Rightarrow> world \<Rightarrow> world" where
  "handleObjectsRecognized objects s =
     s\<lparr>recognizedObjects := objects, isRecognizing := False,
       calls := calls s @ [OnObjectsRecognized objects]\<rparr>"

definition handleRecognitionStart :: "world \<Rightarrow> world" where
  "handleRecognitionStart s =
     s\<lparr>isRecognizing := True, error := None, calls := calls s @ [OnRecognitionStart]\<rparr>"

definition handleError :: "string \<Rightarrow> world \<Rightarrow> world" where
  "handleError message s =
     s\<lparr>error := Some message, isRecognizing := False, calls := calls s @ [OnError message]\<rparr>"

definition handleStartCapture :: "world \<Rightarrow> world" where
  "handleStartCapture s = s\<lparr>isCapturing := True, calls := calls s @ [OnStartCapture]\<rparr>"

definition handleStopCapture :: "world \<Rightarrow> world" where
  "handleStopCapture s = s\<lparr>isCapturing := False, calls := calls s @ [OnStopCapture]\<rparr>"

text \<open>
  \<open>App\<close> renders \<open>ObjectRecognition\<close> with the stored detections unless a recognition is
  in progress; that render throws when the detections cannot be presented.
\<close>

definition renderThrows :: "world \<Rightarrow> bool" where
  "renderThrows s \<longleftrightarrow> \<not> isRecognizing s \<and> \<not> presentable (recognizedObjects s)"

section \<open>WebcamCapture: the handlers\<close>

text \<open>
  \<open>captureAndRecognize\<close> up to its \<open>await\<close>. It reads the two refs, never the
  \<open>isCapturing\<close> prop. A null or empty screenshot ends it silently. The logging
  before the screenshot reads the video element of the mounted webcam component, which
  exists whenever the ref is set, so nothing is thrown before the request is made.
\<close>

definition captureAndRecognize :: "world \<Rightarrow> world" where
  "captureAndRecognize s =
     (if \<not> webcamRef s then s
      else if \<not> isCapturingRef s then s
      else
        (let s1 = s\<lparr>calls := calls s @ [GetScreenshot]\<rparr>
         in case frame s of
              None \<Rightarrow> s1
            | Some imageSrc \<Rightarrow>
                if imageSrc = [] then s1
                else
                  (let s2 = handleRecognitionStart s1
                   in s2\<lparr>inflight := Suc (inflight s2), calls := calls s2 @ [Post imageSrc]\<rparr>)))"

text \<open>
  The inner \<open>try\<close> after the \<open>await\<close>: the value handed to \<open>onObjectsRecognized\<close>, or the
  error that is thrown, rethrown by the inner \<open>catch\<close> and caught by the outer one.
\<close>

definition invalidResponse :: string where
  "invalidResponse = ''Invalid response from recognition service''"

fun respond :: "outcome \<Rightarrow> string + jsval" where
  "respond (Rejected message) = Inl message"
| "respond (Resolved data) =
     (if truthy data \<and> truthy (js_get ''objects'' data)
      then Inr (js_get ''objects'' data)
      else Inl invalidResponse)"

text \<open>\<open>captureAndRecognize\<close> from the \<open>await\<close> on.\<close>

definition settle :: "outcome \<Rightarrow> world \<Rightarrow> world" where
  "settle r s =
     (case respond r of
        Inr objects \<Rightarrow> handleObjectsRecognized objects s
      | Inl message \<Rightarrow> handleError message s)"

text \<open>
  The three handlers below are closures of a render. They read \<open>isCapturing\<close>,
  \<open>captureInterval\<close> and \<open>isCameraReady\<close> as that render closed over them: from \<open>r\<close>, the
  world as it was last rendered. What they write goes to \<open>s\<close>, the world as it is now:
  \<open>onStartCapture\<close>, \<open>onStopCapture\<close> and \<open>setCaptureInterval\<close> set state cells that
  only the next render shows. Called twice before that render, a handler passes its
  guard twice.
\<close>

definition startCapturing :: "world \<Rightarrow> world \<Rightarrow> world" where
  "startCapturing r s =
     (if isCapturing r then s
      else
        (let s1 = handleStartCapture s;
             (interval, s2) = setInterval Direct s1;
             s3 = s2\<lparr>captureInterval := Some interval\<rparr>
         in captureAndRecognize s3))"

definition stopCapturing :: "world \<Rightarrow> world \<Rightarrow> world" where
  "stopCapturing r s =
     (if \<not> isCapturing r then s
      else
        (let s1 = handleStopCapture s
         in case captureInterval r of
              Some h \<Rightarrow> (clearInterval h s1)\<lparr>captureInterval := None\<rparr>
            | None \<Rightarrow> s1))"

definition toggleCapture :: "world \<Rightarrow> world \<Rightarrow> world" where
  "toggleCapture r s =
     (if \<not> isCameraReady r then s
      else if isCapturing r then stopCapturing r s
      else startCapturing r s)"

text \<open>
  \<open>handleWebcamError\<close> receives the error's \<open>name\<close> and its \<open>message\<close>, which is absent
  when the camera library reports a plain string. The classification only logs, but
  \<open>error.message.includes\<close> throws on an absent message unless the first test on the
  name has already succeeded; the handler then ends before it changes anything.
\<close>

definition webcamErrorMessage :: string where
  "webcamErrorMessage =
     ''Failed to access webcam. Please make sure it is connected and you have granted permission.''"

definition handleWebcamError :: "string \<Rightarrow> string option \<Rightarrow> world \<Rightarrow> world" where
  "handleWebcamError name message s =
     (if name \<noteq> ''NotAllowedError'' \<and> message = None then s
      else handleError webcamErrorMessage (s\<lparr>isCameraReady := False\<rparr>))"

definition handleWebcamInit :: "world \<Rightarrow> world" where
  "handleWebcamInit s = s\<lparr>isCameraReady := True\<rparr>"

text \<open>A scheduled interval fires.\<close>

fun fire :: "timer_callback \<Rightarrow> world \<Rightarrow> world" where
  "fire Direct s = captureAndRecognize s"
| "fire Guarded s = (if isCapturingRef s then captureAndRecognize s else s)"

section \<open>WebcamCapture: the effects\<close>

text \<open>
  The cleanup of the effect on \<open>[captureInterval]\<close>, with the value \<open>r\<close> its render
  closed over.
\<close>

definition cleanupInterval :: "nat option \<Rightarrow> world \<Rightarrow> world" where
  "cleanupInterval r s =
     (case r of
        Some h \<Rightarrow> (clearInterval h s)\<lparr>captureInterval := None\<rparr>
      | None \<Rightarrow> s)"

text \<open>The effect on \<open>[isCapturing]\<close>, with the rendered prop.\<close>

definition syncRef :: "bool \<Rightarrow> world \<Rightarrow> world" where
  "syncRef capturing s = s\<lparr>isCapturingRef := capturing\<rparr>"

text \<open>
  The effect that sets the interval up again, with the three values its render closed
  over. The state it writes is seen by the next render only.
\<close>

definition resumeCapture :: "bool \<Rightarrow> nat option \<Rightarrow> bool \<Rightarrow> world \<Rightarrow> world" where
  "resumeCapture capturing interval ready s =
     (if capturing \<and> interval = None \<and> ready then
        (let (h, s1) = setInterval Guarded s;
             s2 = s1\<lparr>captureInterval := Some h\<rparr>
         in if capturing then captureAndRecognize s2 else s2)
      else s)"

text \<open>
  One commit of a render of the world \<open>s\<close>, the render before it having been of \<open>r\<close>:
  first the cleanups of the effects whose dependencies changed, then their bodies, in
  source order. The last effect depends on \<open>captureAndRecognize\<close>, which is a new
  function whenever \<open>App\<close> has rendered again (its three callbacks are new each time),
  and on both state cells of \<open>WebcamCapture\<close>, so it runs at every commit.
\<close>

definition commitEffects :: "world \<Rightarrow> world \<Rightarrow> world" where
  "commitEffects r s =
     (let s1 = (if captureInterval r \<noteq> captureInterval s
                then cleanupInterval (captureInterval r) s else s);
          s2 = (if isCapturing r \<noteq> isCapturing s
                then syncRef (isCapturing s) s1 else s1)
      in resumeCapture (isCapturing s) (captureInterval s) (isCameraReady s) s2)"

text \<open>
  Two worlds render alike when no \<open>useState\<close> cell differs. \<open>App\<close>, and with it
  \<open>ObjectRecognition\<close>, renders again only when one of its own four cells changed.
\<close>

definition appRenders :: "world \<Rightarrow> world \<Rightarrow> bool" where
  "appRenders r s \<longleftrightarrow>
     recognizedObjects r \<noteq> recognizedObjects s \<or> isRecognizing r \<noteq> isRecognizing s \<or>
     error r \<noteq> error s \<or> isCapturing r \<noteq> isCapturing s"

definition sameRender :: "world \<Rightarrow> world \<Rightarrow> bool" where
  "sameRender r s \<longleftrightarrow>
     recognizedObjects r = recognizedObjects s \<and> isRecognizing r = isRecognizing s \<and>
     error r = error s \<and> isCapturing r = isCapturing s \<and>
     captureInterval r = captureInterval s \<and> isCameraReady r = isCameraReady s"

text \<open>How many commits are still to come; it bounds the renders that follow an event.\<close>

definition pendingRenders :: "world \<Rightarrow> world \<Rightarrow> nat" where
  "pendingRenders r s =
     (if sameRender r s \<or> \<not> webcamRef s then 0
      else
        (let resume = (if isCapturing s \<and> isCameraReady s then 1 else 0)
         in case captureInterval s of
              None \<Rightarrow> Suc resume
            | Some a \<Rightarrow>
                (case captureInterval r of
                   None \<Rightarrow> 1
                 | Some t \<Rightarrow> if t = a then 1 else Suc (Suc resume))))"

subsection \<open>What the effects leave alone\<close>

lemma captureAndRecognize_keeps [simp]:
  "isCapturing (captureAndRecognize s) = isCapturing s"
  "captureInterval (captureAndRecognize s) = captureInterval s"
  "isCameraReady (captureAndRecognize s) = isCameraReady s"
  "webcamRef (captureAndRecognize s) = webcamRef s"
  "isCapturingRef (captureAndRecognize s) = isCapturingRef s"
  "timers (captureAndRecognize s) = timers s"
  "lastHandle (captureAndRecognize s) = lastHandle s"
  "frame (captureAndRecognize s) = frame s"
  "recognizedObjects (captureAndRecognize s) = recognizedObjects s"
  "cleared (captureAndRecognize s) = cleared s"
  "crashed (captureAndRecognize s) = crashed s"
  by (simp_all add: captureAndRecognize_def handleRecognitionStart_def Let_def split: option.split)

lemma resumeCapture_keeps [simp]:
  "isCapturing (resumeCapture c i d s) = isCapturing s"
  "isCameraReady (resumeCapture c i d s) = isCameraReady s"
  "webcamRef (resumeCapture c i d s) = webcamRef s"
  "isCapturingRef (resumeCapture c i d s) = isCapturingRef s"
  "frame (resumeCapture c i d s) = frame s"
  "recognizedObjects (resumeCapture c i d s) = recognizedObjects s"
  "cleared (resumeCapture c i d s) = cleared s"
  "crashed (resumeCapture c i d s) = crashed s"
  by (simp_all add: resumeCapture_def setInterval_def Let_def)

lemma resumeCapture_idle:
  "\<not> (c \<and> i = None \<and> d) \<Longrightarrow> resumeCapture c i d s = s"
  by (auto simp: resumeCapture_def)

lemma resumeCapture_fires:
  "c \<Longrightarrow> d \<Longrightarrow>
   resumeCapture c None d s =
     captureAndRecognize
       (s\<lparr>timers := timers s @ [(Suc (lastHandle s), Guarded)],
          lastHandle := Suc (lastHandle s),
          captureInterval := Some (Suc (lastHandle s))\<rparr>)"
  by (simp add: resumeCapture_def setInterval_def Let_def)

lemma cleanupInterval_keeps [simp]:
  "isCapturing (cleanupInterval x s) = isCapturing s"
  "isCameraReady (cleanupInterval x s) = isCameraReady s"
  "webcamRef (cleanupInterval x s) = webcamRef s"
  "isCapturingRef (cleanupInterval x s) = isCapturingRef s"
  "lastHandle (cleanupInterval x s) = lastHandle s"
  "frame (cleanupInterval x s) = frame s"
  "inflight (cleanupInterval x s) = inflight s"
  "calls (cleanupInterval x s) = calls s"
  "recognizedObjects (cleanupInterval x s) = recognizedObjects s"
  "isRecognizing (cleanupInterval x s) = isRecognizing s"
  "error (cleanupInterval x s) = error s"
  "crashed (cleanupInterval x s) = crashed s"
  by (simp_all add: cleanupInterval_def clearInterval_def split: option.split)

lemma cleanupInterval_captureInterval [simp]:
  "captureInterval (cleanupInterval x s) = (if x = None then captureInterval s else None)"
  by (simp add: cleanupInterval_def clearInterval_def split: option.split)

lemma syncRef_keeps [simp]:
  "isCapturing (syncRef b s) = isCapturing s"
  "isCameraReady (syncRef b s) = isCameraReady s"
  "webcamRef (syncRef b s) = webcamRef s"
  "captureInterval (syncRef b s) = captureInterval s"
  "timers (syncRef b s) = timers s"
  "lastHandle (syncRef b s) = lastHandle s"
  "frame (syncRef b s) = frame s"
  "inflight (syncRef b s) = inflight s"
  "calls (syncRef b s) = calls s"
  "recognizedObjects (syncRef b s) = recognizedObjects s"
  "isRecognizing (syncRef b s) = isRecognizing s"
  "error (syncRef b s) = error s"
  "cleared (syncRef b s) = cleared s"
  "crashed (syncRef b s) = crashed s"
  "isCapturingRef (syncRef b s) = b"
  by (simp_all add: syncRef_def)

lemma commitEffects_keeps [simp]:
  "isCapturing (commitEffects r s) = isCapturing s"
  "isCameraReady (commitEffects r s) = isCameraReady s"
  "webcamRef (commitEffects r s) = webcamRef s"
  "frame (commitEffects r s) = frame s"
  "recognizedObjects (commitEffects r s) = recognizedObjects s"
  "crashed (commitEffects r s) = crashed s"
  by (simp_all add: commitEffects_def Let_def)

lemma commitEffects_captureInterval:
  "captureInterval (commitEffects r s) =
     (if isCapturing s \<and> captureInterval s = None \<and> isCameraReady s
      then Some (Suc (lastHandle s))
      else if captureInterval r \<noteq> captureInterval s \<and> captureInterval r \<noteq> None then None
      else captureInterval s)"
  by (simp add: commitEffects_def Let_def resumeCapture_idle resumeCapture_fires)

lemma commitEffects_idle_render:
  "\<not> (isCapturing s \<and> captureInterval s = None \<and> isCameraReady s) \<Longrightarrow>
   isRecognizing (commitEffects r s) = isRecognizing s \<and> error (commitEffects r s) = error s"
  by (simp add: commitEffects_def Let_def resumeCapture_idle)

lemma pendingRenders_decreases:
  assumes "\<not> (sameRender r s \<or> \<not> webcamRef s)"
  shows "pendingRenders s (commitEffects r s) < pendingRenders r s"
proof (cases "isCapturing s \<and> captureInterval s = None \<and> isCameraReady s")
  case True
  then show ?thesis
    using assms
    by (simp add: pendingRenders_def sameRender_def commitEffects_captureInterval)
next
  case False
  then show ?thesis
    using assms commitEffects_idle_render [OF False, of r]
    by (auto simp: pendingRenders_def sameRender_def commitEffects_captureInterval
        split: option.splits)
qed

subsection \<open>Unmounting, and a render that throws\<close>

text \<open>
  Unmounting runs the cleanup of the interval effect with the handle of the last
  render, \<open>r\<close>, and detaches the webcam ref. It does not call \<open>onStopCapture\<close>:
  \<open>isCapturing\<close> lives in \<open>App\<close> and survives.
\<close>

definition unmount :: "world \<Rightarrow> world \<Rightarrow> world" where
  "unmount r s =
     (if \<not> webcamRef s then s
      else (cleanupInterval (captureInterval r) s)\<lparr>webcamRef := False\<rparr>)"

text \<open>
  No error boundary surrounds \<open>App\<close>, so when a render throws React unmounts the whole
  page: the effects of that render never run, the cleanups of the last committed render
  do, and nothing is rendered any more.
\<close>

definition crash :: "world \<Rightarrow> world \<Rightarrow> world" where
  "crash r s = (unmount r s)\<lparr>crashed := True\<rparr>"

subsection \<open>Rendering until nothing changes\<close>

text \<open>
  When a state cell has changed React renders again, commits, runs the effects, and
  repeats while the effects themselves change state. \<open>r\<close> is the world of the previous
  render: what the cleanups close over and what the dependencies are compared with.
  A render of \<open>App\<close> that throws ends everything; an unmounted \<open>WebcamCapture\<close> has no
  effects to run.
\<close>

function rerender :: "world \<Rightarrow> world \<Rightarrow> world" where
  "rerender r s =
     (if sameRender r s \<or> crashed s then s
      else if appRenders r s \<and> renderThrows s then crash r s
      else if \<not> webcamRef s then s
      else rerender s (commitEffects r s))"
  by pat_completeness auto
termination
  by (relation "measure (\<lambda>(r, s). pendingRenders r s)") (simp_all add: pendingRenders_decreases)

declare rerender.simps [simp del]

text \<open>
  A new \<open>WebcamCapture\<close>: fresh state cells, \<open>useRef(isCapturing)\<close>, the webcam ref
  attached, then every effect body once.
\<close>

definition mount :: "world \<Rightarrow> world" where
  "mount s =
     (let s0 = s\<lparr>captureInterval := None, isCameraReady := False,
                  isCapturingRef := isCapturing s, webcamRef := True\<rparr>;
          s1 = syncRef (isCapturing s0) s0;
          s2 = resumeCapture (isCapturing s0) (captureInterval s0) (isCameraReady s0) s1
      in rerender s0 s2)"

section \<open>Events\<close>

text \<open>
  A page is the world as it is now together with the world as it was last rendered,
  which is what the handlers on the screen have closed over.
\<close>

record page =
  shown :: world
  now :: world

text \<open>
  What can happen to the page. \<open>Start\<close> and \<open>Stop\<close> call \<open>startCapturing\<close> and
  \<open>stopCapturing\<close> of the render on the screen directly; the button reaches them
  through \<open>Toggle\<close>. The button, the camera callbacks and the two functions exist only
  while the component is mounted. \<open>Tick h\<close> is the interval \<open>h\<close> firing, if it is
  scheduled. \<open>Frame f\<close> is the camera changing what \<open>getScreenshot\<close> would return.
  \<open>Reply r\<close> is a pending POST ending. \<open>Render\<close> is React catching up with the state:
  until it happens the handlers of the previous render stay on the screen, and any of
  them may run again. \<open>Unmount\<close> and \<open>Mount\<close> take the capture component away and put
  a new one in its place; nothing can be mounted on a page that has crashed.
\<close>

datatype event =
    Start
  | Stop
  | Toggle
  | Tick nat
  | WebcamInit
  | WebcamError string "string option"
  | Unmount
  | Mount
  | Frame "string option"
  | Reply outcome
  | Render

text \<open>The handlers, \<open>r\<close> being the render they belong to.\<close>

fun handle :: "event \<Rightarrow> world \<Rightarrow> world \<Rightarrow> world" where
  "handle Start r s = (if webcamRef s then startCapturing r s else s)"
| "handle Stop r s = (if webcamRef s then stopCapturing r s else s)"
| "handle Toggle r s = (if webcamRef s then toggleCapture r s else s)"
| "handle (Tick h) r s = (case map_of (timers s) h of Some cb \<Rightarrow> fire cb s | None \<Rightarrow> s)"
| "handle WebcamInit r s = (if webcamRef s then handleWebcamInit s else s)"
| "handle (WebcamError name message) r s =
     (if webcamRef s then handleWebcamError name message s else s)"
| "handle Unmount r s = unmount r s"
| "handle (Frame f) r s = s\<lparr>frame := f\<rparr>"
| "handle (Reply r') r s =
     (if inflight s = 0 then s else settle r' (s\<lparr>inflight := inflight s - 1\<rparr>))"
| "handle e r s = s"

definition showing :: "world \<Rightarrow> page" where
  "showing s = \<lparr>shown = s, now = s\<rparr>"

fun step :: "event \<Rightarrow> page \<Rightarrow> page" where
  "step Render p = showing (rerender (shown p) (now p))"
| "step Mount p =
     (if webcamRef (now p) \<or> crashed (now p) then p else showing (mount (now p)))"
| "step e p = p\<lparr>now := handle e (shown p) (now p)\<rparr>"


text \<open>
  One event on a page that shows \<open>s\<close>, and then the render: the schedule in which React
  catches up before anything else happens.
\<close>

definition rendered :: "event \<Rightarrow> world \<Rightarrow> world" where
  "rendered e s = now (step Render (step e (showing s)))"

inductive reachableRendered :: "world \<Rightarrow> bool" where
  rendered_init: "reachableRendered init"
| rendered_step: "reachableRendered s \<Longrightarrow> reachableRendered (rendered e s)"

section \<open>What holds between two rendered events\<close>

text \<open>
  \<open>oneTimer\<close>: the browser schedules nothing when \<open>captureInterval\<close> is \<open>null\<close>, and
  otherwise exactly the interval whose handle it stores, in a mounted, capturing
  component.
\<close>

definition oneTimer :: "world \<Rightarrow> bool" where
  "oneTimer s \<longleftrightarrow>
     (case captureInterval s of
        None \<Rightarrow> timers s = []
      | Some h \<Rightarrow> (\<exists>cb. timers s = [(h, cb)]) \<and> isCapturing s \<and> webcamRef s)"

text \<open>
  \<open>settled\<close>: the ref mirrors the prop, and the effect that sets the interval up again
  has nothing left to do.
\<close>

definition settled :: "world \<Rightarrow> bool" where
  "settled s \<longleftrightarrow>
     (webcamRef s \<longrightarrow> isCapturingRef s = isCapturing s) \<and>
     \<not> (webcamRef s \<and> isCapturing s \<and> captureInterval s = None \<and> isCameraReady s)"

text \<open>\<open>presented\<close>: the stored detections can be shown, or the page is already down.\<close>

definition presented :: "world \<Rightarrow> bool" where
  "presented s \<longleftrightarrow> (crashed s \<or> presentable (recognizedObjects s)) \<and> \<not> (crashed s \<and> webcamRef s)"

definition consistent :: "world \<Rightarrow> bool" where
  "consistent s \<longleftrightarrow> oneTimer s \<and> settled s \<and> presented s"

text \<open>
  \<open>renderable r s\<close>: what a handler leaves behind for the renders that follow it, \<open>r\<close>
  being the world it started from.
\<close>

definition renderable :: "world \<Rightarrow> world \<Rightarrow> bool" where
  "renderable r s \<longleftrightarrow>
     oneTimer s \<and>
     (webcamRef s \<and> isCapturing r = isCapturing s \<longrightarrow> isCapturingRef s = isCapturing s) \<and>
     (captureInterval r = None \<or> captureInterval r = captureInterval s \<or> captureInterval s = None) \<and>
     (sameRender r s \<or> \<not> webcamRef s \<longrightarrow> settled s) \<and>
     \<not> (crashed s \<and> webcamRef s) \<and>
     (crashed s \<or> presentable (recognizedObjects s) \<or>
      \<not> isRecognizing s \<and> captureInterval r = captureInterval s \<and> appRenders r s)"

section \<open>The response the interface description expects\<close>

text \<open>
  These two follow the words of the interface description, not the code: the body is
  an object whose field \<open>objects\<close> is a list of objects, each with a string \<open>name\<close> and
  a number \<open>confidence\<close>. The code's own test is in \<open>respond\<close>.
\<close>

fun isDetection :: "jsval \<Rightarrow> bool" where
  "isDetection (JObj ps) =
     (case (map_of ps ''name'', map_of ps ''confidence'') of
        (Some (JStr name), Some (JNum confidence)) \<Rightarrow> True
      | _ \<Rightarrow> False)"
| "isDetection v = False"

definition hasDetectionList :: "jsval \<Rightarrow> bool" where
  "hasDetectionList body =
     (case js_get ''objects'' body of
        JArr xs \<Rightarrow> list_all isDetection xs
      | _ \<Rightarrow> False)"

section \<open>Scenarios\<close>

text \<open>
  The camera has a frame and has reported that it is ready; then the button is pressed;
  then the first interval fires and sends a frame; then the service answers with one
  detection and the interval fires again. Each of these events is followed by its
  render. \<open>unmountedWorld\<close> is the capturing component unmounted.
\<close>

definition readyWorld :: world where
  "readyWorld = rendered WebcamInit (rendered (Frame (Some ''jpeg'')) init)"

definition capturingWorld :: world where
  "capturingWorld = rendered Toggle readyWorld"

definition unmountedWorld :: world where
  "unmountedWorld = rendered Unmount capturingWorld"

definition pollingWorld :: world where
  "pollingWorld = rendered (Tick 1) capturingWorld"

definition catList :: jsval where
  "catList = JArr [JObj [(''name'', JStr ''cat''), (''confidence'', JNum 0.92)]]"

definition recognizedWorld :: world where
  "recognizedWorld =
     rendered (Tick 1) (rendered (Reply (Resolved (JObj [(''objects'', catList)]))) pollingWorld)"

text \<open>A table of scores where the list of detections should be.\<close>

definition scoreTable :: jsval where
  "scoreTable = JObj [(''cat'', JNum 0.92)]"

section \<open>The render loop\<close>

lemma rerender_stop: "sameRender r s \<or> crashed s \<Longrightarrow> rerender r s = s"
  by (simp add: rerender.simps)

lemma rerender_crash:
  "\<not> sameRender r s \<Longrightarrow> \<not> crashed s \<Longrightarrow> appRenders r s \<Longrightarrow> renderThrows s \<Longrightarrow>
   rerender r s = crash r s"
  by (simp add: rerender.simps)

lemma rerender_unmounted:
  "\<not> webcamRef s \<Longrightarrow> \<not> (appRenders r s \<and> renderThrows s) \<Longrightarrow> rerender r s = s"
  by (subst rerender.simps) auto

lemma rerender_go:
  "\<not> sameRender r s \<Longrightarrow> \<not> crashed s \<Longrightarrow> \<not> (appRenders r s \<and> renderThrows s) \<Longrightarrow>
   webcamRef s \<Longrightarrow> rerender r s = rerender s (commitEffects r s)"
  by (subst rerender.simps) auto

lemma sameRender_refl [simp]: "sameRender s s"
  by (simp add: sameRender_def)

lemma rerender_self [simp]: "rerender s s = s"
  by (simp add: rerender_stop)

lemma crash_keeps [simp]:
  "isCapturing (crash r s) = isCapturing s"
  "isCameraReady (crash r s) = isCameraReady s"
  "frame (crash r s) = frame s"
  "recognizedObjects (crash r s) = recognizedObjects s"
  "isRecognizing (crash r s) = isRecognizing s"
  "error (crash r s) = error s"
  "calls (crash r s) = calls s"
  "inflight (crash r s) = inflight s"
  "crashed (crash r s)"
  "\<not> webcamRef (crash r s)"
  by (simp_all add: crash_def unmount_def)

lemma rerender_keeps [simp]:
  "isCapturing (rerender r s) = isCapturing s"
  "isCameraReady (rerender r s) = isCameraReady s"
  "frame (rerender r s) = frame s"
  "recognizedObjects (rerender r s) = recognizedObjects s"
proof (induction r s rule: rerender.induct)
  case (1 r s)
  {
    case 1
    show ?case using "1.IH"(1) by (subst rerender.simps) simp
  next
    case 2
    show ?case using "1.IH"(2) by (subst rerender.simps) simp
  next
    case 3
    show ?case using "1.IH"(3) by (subst rerender.simps) simp
  next
    case 4
    show ?case using "1.IH"(4) by (subst rerender.simps) simp
  }
qed

text \<open>
  A render after which the component has nothing to do: the capturing flag is the one of
  the render before, no handle is left to clean up, the effect that sets the interval
  up again finds its guard false, and no render throws.
\<close>

lemma commitEffects_settled:
  "captureInterval r = None \<or> captureInterval r = captureInterval s \<Longrightarrow>
   isCapturing r = isCapturing s \<Longrightarrow>
   \<not> (isCapturing s \<and> captureInterval s = None \<and> isCameraReady s) \<Longrightarrow>
   commitEffects r s = s"
  by (auto simp: commitEffects_def Let_def resumeCapture_idle cleanupInterval_def)

lemma rerender_settled:
  assumes "captureInterval r = None \<or> captureInterval r = captureInterval s"
    "isCapturing r = isCapturing s"
    "\<not> (webcamRef s \<and> isCapturing s \<and> captureInterval s = None \<and> isCameraReady s)"
    "crashed s \<or> \<not> (appRenders r s \<and> renderThrows s)"
  shows "rerender r s = s"
proof (cases "sameRender r s \<or> crashed s")
  case True
  then show ?thesis by (rule rerender_stop)
next
  case False
  then have nt: "\<not> (appRenders r s \<and> renderThrows s)" using assms(4) by simp
  show ?thesis
  proof (cases "webcamRef s")
    case False
    then show ?thesis using nt by (rule rerender_unmounted)
  next
    case True
    then have "rerender r s = rerender s (commitEffects r s)"
      using False nt by (simp add: rerender_go)
    also have "\<dots> = rerender s s" using assms True by (simp add: commitEffects_settled)
    also have "\<dots> = s" by simp
    finally show ?thesis .
  qed
qed

lemma commitEffects_timers:
  "oneTimer s \<Longrightarrow>
   captureInterval r = None \<or> captureInterval r = captureInterval s \<or> captureInterval s = None \<Longrightarrow>
   timers (commitEffects r s) =
     (if isCapturing s \<and> captureInterval s = None \<and> isCameraReady s
      then [(Suc (lastHandle s), Guarded)] else timers s)"
  by (auto simp: commitEffects_def Let_def resumeCapture_idle resumeCapture_fires oneTimer_def
      cleanupInterval_def clearInterval_def split: option.splits)

lemma commitEffects_ref:
  "isCapturingRef (commitEffects r s) =
     (if isCapturing r \<noteq> isCapturing s then isCapturing s else isCapturingRef s)"
  by (simp add: commitEffects_def Let_def)

lemma renderable_commit:
  assumes "renderable r s" "\<not> sameRender r s" "webcamRef s" "\<not> crashed s"
    "\<not> (appRenders r s \<and> renderThrows s)"
  shows "renderable s (commitEffects r s)"
proof -
  from assms have ot: "oneTimer s"
    and safe: "captureInterval r = None \<or> captureInterval r = captureInterval s \<or> captureInterval s = None"
    and rf: "isCapturing r = isCapturing s \<longrightarrow> isCapturingRef s = isCapturing s"
    and pr: "presentable (recognizedObjects s) \<or> \<not> isRecognizing s \<and> appRenders r s"
    by (auto simp: renderable_def)
  note ci = commitEffects_captureInterval [of r s]
  note tm = commitEffects_timers [OF ot safe]
  have 1: "oneTimer (commitEffects r s)"
    using ot safe assms(3) ci tm by (auto simp: oneTimer_def split: option.splits if_splits)
  have 2: "isCapturingRef (commitEffects r s) = isCapturing s"
    using rf by (simp add: commitEffects_ref)
  have 3: "captureInterval s = None \<or> captureInterval s = captureInterval (commitEffects r s)
      \<or> captureInterval (commitEffects r s) = None"
    using safe ci by (auto split: if_splits)
  have 4: "sameRender s (commitEffects r s) \<longrightarrow> settled (commitEffects r s)"
    using 2 ci assms(3) by (auto simp: sameRender_def settled_def split: if_splits)
  have 5: "presentable (recognizedObjects (commitEffects r s))"
    using pr assms(5) by (auto simp: renderThrows_def)
  show ?thesis
    using 1 2 3 4 5 assms(3,4) by (simp add: renderable_def)
qed

lemma consistent_crash:
  assumes "renderable r s" "renderThrows s" "\<not> crashed s"
  shows "consistent (crash r s)"
proof -
  from assms have ot: "oneTimer s"
    and same: "\<not> webcamRef s \<or> captureInterval r = captureInterval s"
    by (auto simp: renderable_def renderThrows_def oneTimer_def split: option.splits)
  have "oneTimer (crash r s)"
  proof (cases "webcamRef s")
    case False
    then show ?thesis using ot
      by (simp add: crash_def unmount_def oneTimer_def split: option.splits)
  next
    case True
    then show ?thesis using ot same
      by (cases "captureInterval s")
        (auto simp: crash_def unmount_def oneTimer_def cleanupInterval_def clearInterval_def)
  qed
  then show ?thesis by (simp add: consistent_def settled_def presented_def)
qed

lemma rerender_consistent: "renderable r s \<Longrightarrow> consistent (rerender r s)"
proof (induction r s rule: rerender.induct)
  case (1 r s)
  show ?case
  proof (cases "sameRender r s \<or> crashed s")
    case True
    then have "settled s" "presented s"
      using "1.prems" by (auto simp: renderable_def presented_def sameRender_def appRenders_def)
    then show ?thesis using True "1.prems" by (simp add: rerender_stop renderable_def consistent_def)
  next
    case False
    show ?thesis
    proof (cases "appRenders r s \<and> renderThrows s")
      case True
      then show ?thesis using False "1.prems" by (simp add: rerender_crash consistent_crash)
    next
      case nt: False
      then have pr: "presented s"
        using False "1.prems" by (auto simp: renderable_def presented_def renderThrows_def)
      show ?thesis
      proof (cases "webcamRef s")
        case False
        then show ?thesis using nt pr "1.prems"
          by (simp add: rerender_unmounted renderable_def consistent_def)
      next
        case True
        then have "renderable s (commitEffects r s)"
          using False nt "1.prems" by (simp add: renderable_commit)
        then have "consistent (rerender s (commitEffects r s))"
          using False nt True by (intro "1.IH") simp_all
        then show ?thesis using False nt True by (simp add: rerender_go)
      qed
    qed
  qed
qed

section \<open>An event and its render\<close>

lemma step_Render_showing [simp]: "step Render (showing s) = showing s"
  by (simp add: showing_def)

lemma rendered_Render [simp]: "rendered Render s = s"
  by (simp add: rendered_def showing_def)

lemma rendered_Mount:
  "rendered Mount s = (if webcamRef s \<or> crashed s then s else mount s)"
  by (simp add: rendered_def) (simp add: showing_def)

lemma rendered_handler:
  "e \<noteq> Mount \<Longrightarrow> e \<noteq> Render \<Longrightarrow> rendered e s = rerender s (handle e s s)"
  by (cases e) (simp_all add: rendered_def showing_def)


section \<open>Every rendered event keeps the world consistent\<close>

lemma startCapturing_unfold:
  "\<not> isCapturing r \<Longrightarrow>
   startCapturing r s =
     captureAndRecognize
       (s\<lparr>isCapturing := True, calls := calls s @ [OnStartCapture],
          timers := timers s @ [(Suc (lastHandle s), Direct)],
          lastHandle := Suc (lastHandle s),
          captureInterval := Some (Suc (lastHandle s))\<rparr>)"
  by (simp add: startCapturing_def handleStartCapture_def setInterval_def Let_def)

lemma stopCapturing_unfold:
  "isCapturing r \<Longrightarrow>
   stopCapturing r s =
     (case captureInterval r of
        Some h \<Rightarrow> s\<lparr>isCapturing := False, calls := calls s @ [OnStopCapture],
                    timers := filter (\<lambda>t. fst t \<noteq> h) (timers s),
                    cleared := cleared s @ [h], captureInterval := None\<rparr>
      | None \<Rightarrow> s\<lparr>isCapturing := False, calls := calls s @ [OnStopCapture]\<rparr>)"
  by (simp add: stopCapturing_def handleStopCapture_def clearInterval_def Let_def split: option.split)

lemma consistent_renderable: "consistent s \<Longrightarrow> renderable s s"
  by (auto simp: consistent_def renderable_def settled_def presented_def)

lemma oneTimer_inactive:
  "oneTimer s \<Longrightarrow> \<not> isCapturing s \<Longrightarrow> captureInterval s = None \<and> timers s = []"
  by (cases "captureInterval s") (simp_all add: oneTimer_def)

lemma oneTimer_cong:
  "captureInterval s' = captureInterval s \<Longrightarrow> timers s' = timers s \<Longrightarrow>
   isCapturing s' = isCapturing s \<Longrightarrow> webcamRef s' = webcamRef s \<Longrightarrow>
   oneTimer s' = oneTimer s"
  by (simp add: oneTimer_def split: option.split)

lemma settled_cong:
  "captureInterval s' = captureInterval s \<Longrightarrow> isCapturingRef s' = isCapturingRef s \<Longrightarrow>
   isCapturing s' = isCapturing s \<Longrightarrow> webcamRef s' = webcamRef s \<Longrightarrow>
   isCameraReady s' = isCameraReady s \<Longrightarrow> settled s' = settled s"
  by (simp add: settled_def)

text \<open>A handler that leaves the capture component's own state alone.\<close>

lemma renderable_app_only:
  assumes "consistent s" "captureInterval s' = captureInterval s" "timers s' = timers s"
    "isCapturing s' = isCapturing s" "webcamRef s' = webcamRef s"
    "isCameraReady s' = isCameraReady s" "isCapturingRef s' = isCapturingRef s"
    "crashed s' = crashed s"
    "recognizedObjects s' = recognizedObjects s \<or> \<not> isRecognizing s'"
  shows "renderable s s'"
proof -
  have "oneTimer s'" "settled s'"
    using assms oneTimer_cong [of s' s] settled_cong [of s' s] by (simp_all add: consistent_def)
  moreover have "\<not> (crashed s' \<and> webcamRef s')"
    using assms by (simp add: consistent_def presented_def)
  moreover have "crashed s' \<or> presentable (recognizedObjects s') \<or>
      \<not> isRecognizing s' \<and> appRenders s s'"
    using assms(1,8,9) by (auto simp: consistent_def presented_def appRenders_def)
  ultimately show ?thesis
    using assms(2,4) by (auto simp: renderable_def settled_def)
qed

lemma renderable_startCapturing:
  assumes "consistent s" "webcamRef s"
  shows "renderable s (startCapturing s s)"
proof (cases "isCapturing s")
  case True
  then show ?thesis using assms by (simp add: startCapturing_def consistent_renderable)
next
  case False
  then have idle: "captureInterval s = None" "timers s = []"
    using assms oneTimer_inactive [of s] by (simp_all add: consistent_def)
  have live: "\<not> crashed s" "presentable (recognizedObjects s)"
    using assms by (auto simp: consistent_def presented_def)
  have "oneTimer (startCapturing s s)"
    using False idle assms(2) by (simp add: startCapturing_unfold oneTimer_def)
  moreover have "\<not> sameRender s (startCapturing s s)"
    using False by (simp add: startCapturing_unfold sameRender_def)
  moreover have "isCapturing (startCapturing s s)" "webcamRef (startCapturing s s)"
    "\<not> crashed (startCapturing s s)" "presentable (recognizedObjects (startCapturing s s))"
    using False assms(2) live by (simp_all add: startCapturing_unfold)
  ultimately show ?thesis
    using False idle by (simp add: renderable_def)
qed

lemma renderable_stopCapturing:
  assumes "consistent s"
  shows "renderable s (stopCapturing s s)"
proof (cases "isCapturing s")
  case False
  then show ?thesis using assms by (simp add: stopCapturing_def consistent_renderable)
next
  case True
  have "timers (stopCapturing s s) = []" "captureInterval (stopCapturing s s) = None"
    using True assms
    by (auto simp: stopCapturing_unfold consistent_def oneTimer_def split: option.splits)
  moreover have "\<not> sameRender s (stopCapturing s s)"
    using True by (simp add: stopCapturing_unfold sameRender_def split: option.splits)
  moreover have "\<not> isCapturing (stopCapturing s s)"
    "crashed (stopCapturing s s) = crashed s" "webcamRef (stopCapturing s s) = webcamRef s"
    "recognizedObjects (stopCapturing s s) = recognizedObjects s"
    using True by (simp_all add: stopCapturing_unfold split: option.splits)
  ultimately show ?thesis
    using True assms
    by (auto simp: renderable_def oneTimer_def settled_def consistent_def presented_def)
qed

lemma renderable_captureAndRecognize:
  "consistent s \<Longrightarrow> renderable s (captureAndRecognize s)"
  by (rule renderable_app_only) simp_all

lemma renderable_handle:
  assumes "consistent s" "e \<noteq> Mount" "e \<noteq> Render"
  shows "renderable s (handle e s s)"
proof (cases e)
  case Start
  then show ?thesis using assms by (simp add: renderable_startCapturing consistent_renderable)
next
  case Stop
  then show ?thesis using assms by (simp add: renderable_stopCapturing consistent_renderable)
next
  case Toggle
  then show ?thesis using assms
    by (simp add: toggleCapture_def renderable_startCapturing renderable_stopCapturing
        consistent_renderable)
next
  case (Tick h)
  show ?thesis
  proof (cases "map_of (timers s) h")
    case None
    then show ?thesis using Tick assms by (simp add: consistent_renderable)
  next
    case (Some cb)
    then show ?thesis using Tick assms
      by (cases cb) (simp_all add: renderable_captureAndRecognize consistent_renderable)
  qed
next
  case WebcamInit
  show ?thesis
  proof (cases "webcamRef s")
    case False
    then show ?thesis using WebcamInit assms by (simp add: consistent_renderable)
  next
    case True
    have "oneTimer (handleWebcamInit s)"
      using assms oneTimer_cong [of "handleWebcamInit s" s]
      by (simp add: handleWebcamInit_def consistent_def)
    moreover have "isCapturingRef s = isCapturing s"
      using assms True by (simp add: consistent_def settled_def)
    moreover have "sameRender s (handleWebcamInit s) \<longrightarrow> settled (handleWebcamInit s)"
      using assms by (auto simp: handleWebcamInit_def sameRender_def consistent_def settled_def)
    moreover have "\<not> crashed s" "presentable (recognizedObjects s)"
      using assms True by (auto simp: consistent_def presented_def)
    ultimately show ?thesis
      using WebcamInit True by (simp add: renderable_def) (simp add: handleWebcamInit_def)
  qed
next
  case (WebcamError name message)
  show ?thesis
  proof (cases "webcamRef s \<and> \<not> (name \<noteq> ''NotAllowedError'' \<and> message = None)")
    case False
    then show ?thesis using WebcamError assms
      by (auto simp: handleWebcamError_def consistent_renderable)
  next
    case True
    let ?s' = "handleError webcamErrorMessage (s\<lparr>isCameraReady := False\<rparr>)"
    have "oneTimer ?s'"
      using assms oneTimer_cong [of ?s' s] by (simp add: handleError_def consistent_def)
    moreover have "settled ?s'"
      using assms by (simp add: handleError_def consistent_def settled_def)
    moreover have "captureInterval ?s' = captureInterval s"
      by (simp add: handleError_def)
    moreover have "\<not> crashed ?s'" "presentable (recognizedObjects ?s')"
      using assms True by (auto simp: handleError_def consistent_def presented_def)
    ultimately have "renderable s ?s'"
      by (simp add: renderable_def settled_def)
    then show ?thesis using WebcamError True by (auto simp: handleWebcamError_def)
  qed
next
  case Unmount
  show ?thesis
  proof (cases "webcamRef s")
    case False
    then show ?thesis using Unmount assms by (simp add: unmount_def consistent_renderable)
  next
    case True
    have "oneTimer s" using assms by (simp add: consistent_def)
    then have "timers (cleanupInterval (captureInterval s) s) = []"
      by (cases "captureInterval s")
        (auto simp: cleanupInterval_def clearInterval_def oneTimer_def)
    moreover have "\<not> crashed s" "presentable (recognizedObjects s)"
      using assms True by (auto simp: consistent_def presented_def)
    ultimately show ?thesis
      using Unmount True
      by (auto simp: unmount_def renderable_def oneTimer_def settled_def)
  qed
next
  case (Frame f)
  then show ?thesis using assms by (simp add: renderable_app_only)
next
  case (Reply r)
  show ?thesis
  proof (cases "inflight s = 0")
    case True
    then show ?thesis using Reply assms by (simp add: consistent_renderable)
  next
    case False
    have "renderable s (settle r (s\<lparr>inflight := inflight s - 1\<rparr>))"
      using assms
      by (intro renderable_app_only)
        (simp_all add: settle_def handleError_def handleObjectsRecognized_def split: sum.split)
    then show ?thesis using Reply False by simp
  qed
qed (use assms in simp_all)

lemma mount_unfold:
  "mount s = s\<lparr>captureInterval := None, isCameraReady := False,
               isCapturingRef := isCapturing s, webcamRef := True\<rparr>"
  by (simp add: mount_def Let_def syncRef_def resumeCapture_idle rerender_stop sameRender_def)

lemma consistent_mount:
  assumes "consistent s" "\<not> webcamRef s" "\<not> crashed s"
  shows "consistent (mount s)"
proof -
  have "captureInterval s = None" "timers s = []"
    using assms by (auto simp: consistent_def oneTimer_def split: option.splits)
  then show ?thesis
    using assms by (simp add: mount_unfold consistent_def oneTimer_def settled_def presented_def)
qed

lemma consistent_rendered: "consistent s \<Longrightarrow> consistent (rendered e s)"
proof (cases "e = Mount \<or> e = Render")
  case True
  assume "consistent s"
  then show ?thesis using True by (auto simp: rendered_Mount consistent_mount)
next
  case False
  assume "consistent s"
  then show ?thesis using False
    by (simp add: rendered_handler rerender_consistent renderable_handle)
qed

lemma consistent_init: "consistent init"
  by (simp add: consistent_def oneTimer_def settled_def presented_def init_def itemRenders_def)

lemma reachableRendered_consistent: "reachableRendered s \<Longrightarrow> consistent s"
  by (induction rule: reachableRendered.induct) (simp_all add: consistent_init consistent_rendered)

section \<open>Single events in a consistent world\<close>

lemma consistent_fields:
  assumes "consistent s"
  shows "\<not> (webcamRef s \<and> isCapturing s \<and> captureInterval s = None \<and> isCameraReady s)"
    and "webcamRef s \<Longrightarrow> isCapturingRef s = isCapturing s"
    and "(h, cb) \<in> set (timers s) \<Longrightarrow>
           timers s = [(h, cb)] \<and> captureInterval s = Some h \<and> isCapturing s \<and> webcamRef s"
    and "crashed s \<or> presentable (recognizedObjects s)"
    and "webcamRef s \<Longrightarrow> \<not> crashed s"
proof -
  from assms have ot: "oneTimer s" and st: "settled s" and pr: "presented s"
    by (simp_all add: consistent_def)
  show "\<not> (webcamRef s \<and> isCapturing s \<and> captureInterval s = None \<and> isCameraReady s)"
    using st by (simp add: settled_def)
  show "webcamRef s \<Longrightarrow> isCapturingRef s = isCapturing s"
    using st by (simp add: settled_def)
  show "(h, cb) \<in> set (timers s) \<Longrightarrow>
           timers s = [(h, cb)] \<and> captureInterval s = Some h \<and> isCapturing s \<and> webcamRef s"
    using ot by (cases "captureInterval s") (auto simp: oneTimer_def)
  show "crashed s \<or> presentable (recognizedObjects s)"
    using pr by (simp add: presented_def)
  show "webcamRef s \<Longrightarrow> \<not> crashed s"
    using pr by (auto simp: presented_def)
qed

text \<open>A capture never makes the next render throw: what it changes hides the detections.\<close>

lemma captureAndRecognize_shows:
  "recognizedObjects r = recognizedObjects s \<Longrightarrow> isRecognizing r = isRecognizing s \<Longrightarrow>
   error r = error s \<Longrightarrow> isCapturing r = isCapturing s \<Longrightarrow>
   \<not> (appRenders r (captureAndRecognize s) \<and> renderThrows (captureAndRecognize s))"
  by (auto simp: captureAndRecognize_def handleRecognitionStart_def appRenders_def
      renderThrows_def Let_def split: option.splits)

lemma settle_failure:
  "respond r = Inl m \<Longrightarrow>
   settle r s = s\<lparr>error := Some m, isRecognizing := False, calls := calls s @ [OnError m]\<rparr>"
  by (simp add: settle_def handleError_def)



lemma captureAndRecognize_calls:
  "webcamRef s \<Longrightarrow> isCapturingRef s \<Longrightarrow>
   calls (captureAndRecognize s) =
     calls s @ GetScreenshot #
       (case frame s of
          None \<Rightarrow> []
        | Some imageSrc \<Rightarrow> if imageSrc = [] then [] else [OnRecognitionStart, Post imageSrc])"
  by (simp add: captureAndRecognize_def handleRecognitionStart_def Let_def split: option.split)

text \<open>
  A start in an idle component: the immediate call of \<open>captureAndRecognize\<close> still finds
  the ref false, and the render that follows sets it.
\<close>

lemma rendered_Start_inactive:
  assumes "consistent s" "webcamRef s" "\<not> isCapturing s"
  shows "rendered Start s =
     s\<lparr>isCapturing := True, calls := calls s @ [OnStartCapture],
       timers := [(Suc (lastHandle s), Direct)], lastHandle := Suc (lastHandle s),
       captureInterval := Some (Suc (lastHandle s)), isCapturingRef := True\<rparr>"
proof -
  have idle: "captureInterval s = None" "timers s = []"
    using assms oneTimer_inactive [of s] by (simp_all add: consistent_def)
  have ref: "\<not> isCapturingRef s"
    using assms consistent_fields(2) [of s] by simp
  have live: "\<not> crashed s" "presentable (recognizedObjects s)"
    using assms consistent_fields(4,5) [of s] by auto
  define t where "t = s\<lparr>isCapturing := True, calls := calls s @ [OnStartCapture],
       timers := [(Suc (lastHandle s), Direct)], lastHandle := Suc (lastHandle s),
       captureInterval := Some (Suc (lastHandle s))\<rparr>"
  have t: "startCapturing s s = t"
    using assms(3) idle ref by (simp add: startCapturing_unfold captureAndRecognize_def t_def)
  have 1: "\<not> sameRender s t" "webcamRef t" "\<not> crashed t" "\<not> renderThrows t"
    using assms live by (simp_all add: t_def sameRender_def renderThrows_def)
  have 2: "commitEffects s t = t\<lparr>isCapturingRef := True\<rparr>"
    using assms(3) idle
    by (simp add: commitEffects_def Let_def resumeCapture_idle syncRef_def cleanupInterval_def)
      (simp add: t_def)
  have 3: "rerender t (t\<lparr>isCapturingRef := True\<rparr>) = t\<lparr>isCapturingRef := True\<rparr>"
    by (intro rerender_stop) (simp add: sameRender_def)
  have "rendered Start s = rerender s t" using assms(2) t by (simp add: rendered_handler)
  also have "\<dots> = t\<lparr>isCapturingRef := True\<rparr>" using 1 2 3 by (simp add: rerender_go)
  finally show ?thesis by (simp add: t_def)
qed

lemma start_idempotent: "rendered Start (rendered Start s) = rendered Start s"
proof -
  define x where "x = rendered Start s"
  have "isCapturing x \<or> \<not> webcamRef s"
  proof (cases "webcamRef s")
    case True
    have "isCapturing (startCapturing s s)"
      by (cases "isCapturing s") (simp_all add: startCapturing_unfold, simp add: startCapturing_def)
    then show ?thesis using True by (simp add: x_def rendered_handler)
  qed simp
  moreover have "\<not> webcamRef s \<Longrightarrow> x = s" by (simp add: x_def rendered_handler)
  ultimately have "handle Start x x = x" by (auto simp: startCapturing_def)
  then show ?thesis unfolding x_def [symmetric] by (simp add: rendered_handler)
qed

section \<open>The scenarios, evaluated\<close>

lemmas run_defs =
  init_def handleWebcamInit_def handleWebcamError_def toggleCapture_def startCapturing_def
  stopCapturing_def handleStartCapture_def handleStopCapture_def handleRecognitionStart_def
  handleError_def handleObjectsRecognized_def setInterval_def clearInterval_def
  captureAndRecognize_def settle_def sameRender_def appRenders_def renderThrows_def
  itemRenders_def commitEffects_def cleanupInterval_def syncRef_def resumeCapture_def
  mount_def unmount_def crash_def showing_def rendered_def Let_def rerender.simps

lemma readyWorld_eq:
  "readyWorld = init\<lparr>frame := Some ''jpeg'', isCameraReady := True\<rparr>"
  by (simp add: readyWorld_def run_defs)

lemma capturingWorld_eq:
  "capturingWorld =
     init\<lparr>frame := Some ''jpeg'', isCameraReady := True, isCapturing := True,
          isCapturingRef := True, captureInterval := Some 1, timers := [(1, Direct)],
          lastHandle := 1, calls := [OnStartCapture]\<rparr>"
  by (simp add: capturingWorld_def readyWorld_eq) (simp add: run_defs)

lemma unmountedWorld_eq:
  "unmountedWorld =
     init\<lparr>frame := Some ''jpeg'', isCameraReady := True, isCapturing := True,
          isCapturingRef := True, captureInterval := None, timers := [],
          lastHandle := 1, calls := [OnStartCapture], cleared := [1], webcamRef := False\<rparr>"
  by (simp add: unmountedWorld_def capturingWorld_eq) (simp add: run_defs)

lemma pollingWorld_eq:
  "pollingWorld =
     init\<lparr>frame := Some ''jpeg'', isCameraReady := True, isCapturing := True,
          isCapturingRef := True, captureInterval := Some 1, timers := [(1, Direct)],
          lastHandle := 1, isRecognizing := True, inflight := 1,
          calls := [OnStartCapture, GetScreenshot, OnRecognitionStart, Post ''jpeg'']\<rparr>"
  by (simp add: pollingWorld_def capturingWorld_eq) (simp add: run_defs)

lemma recognizedWorld_eq:
  "recognizedWorld =
     init\<lparr>frame := Some ''jpeg'', isCameraReady := True, isCapturing := True,
          isCapturingRef := True, captureInterval := Some 1, timers := [(1, Direct)],
          lastHandle := 1, isRecognizing := True, inflight := 1,
          recognizedObjects := catList,
          calls := [OnStartCapture, GetScreenshot, OnRecognitionStart, Post ''jpeg'',
                    OnObjectsRecognized catList, GetScreenshot, OnRecognitionStart,
                    Post ''jpeg'']\<rparr>"
  by (simp add: recognizedWorld_def pollingWorld_eq) (simp add: run_defs catList_def)





text \<open>With a render after every event, at most one interval is ever scheduled.\<close>

lemma one_timer_when_rendered: "reachableRendered s \<Longrightarrow> length (timers s) \<le> 1"
proof -
  assume "reachableRendered s"
  then have "oneTimer s"
    using reachableRendered_consistent [of s] by (simp add: consistent_def)
  then show ?thesis by (cases "captureInterval s") (auto simp: oneTimer_def)
qed

section \<open>The claims\<close>


text \<open>
  C2. Start twice in a row, from the ready and idle page with a frame available: with a
  render in between the second start changes nothing, one interval is scheduled and the
  coordinator hears of the start once. But no acquisition has been performed: no
  screenshot was taken and no request is in flight. Nor is there one when both starts
  run before the render.
\<close>

theorem start_twice_no_acquisition:
  "frame readyWorld = Some ''jpeg'' \<and> isCameraReady readyWorld \<and> \<not> isCapturing readyWorld \<and>
   rendered Start (rendered Start readyWorld) = rendered Start readyWorld \<and>
   timers (rendered Start (rendered Start readyWorld)) = [(1, Direct)] \<and>
   calls (rendered Start (rendered Start readyWorld)) = [OnStartCapture] \<and>
   inflight (rendered Start (rendered Start readyWorld)) = 0 \<and>
   calls (now (step Start (step Start (showing readyWorld)))) =
     [OnStartCapture, OnStartCapture] \<and>
   inflight (now (step Start (step Start (showing readyWorld)))) = 0"
proof -
  have "rendered Start readyWorld = capturingWorld"
    by (simp add: capturingWorld_eq readyWorld_eq) (simp add: run_defs)
  moreover have "rendered Start capturingWorld = capturingWorld"
    by (simp add: capturingWorld_eq) (simp add: run_defs)
  moreover have "calls (now (step Start (step Start (showing readyWorld)))) =
     [OnStartCapture, OnStartCapture]"
    "inflight (now (step Start (step Start (showing readyWorld)))) = 0"
    by (simp_all add: readyWorld_eq) (simp_all add: run_defs)
  ultimately show ?thesis
    by (simp add: capturingWorld_eq readyWorld_eq init_def)
qed

text \<open>
  C3. The button pressed on the ready and idle page with a frame available:
  \<open>onStartCapture\<close> fires once and the interval is scheduled, but no recognition attempt
  is issued. The first screenshot and the first request come with the first tick of the
  interval.
\<close>

theorem toggle_defers_first_attempt:
  "frame readyWorld = Some ''jpeg'' \<and> isCameraReady readyWorld \<and> \<not> isCapturing readyWorld \<and>
   calls (rendered Toggle readyWorld) = [OnStartCapture] \<and>
   inflight (rendered Toggle readyWorld) = 0 \<and>
   timers (rendered Toggle readyWorld) = [(1, Direct)] \<and>
   calls (rendered (Tick 1) (rendered Toggle readyWorld)) =
     [OnStartCapture, GetScreenshot, OnRecognitionStart, Post ''jpeg'']"
  unfolding capturingWorld_def [symmetric] pollingWorld_def [symmetric]
  by (simp add: pollingWorld_eq capturingWorld_eq readyWorld_eq init_def)

text \<open>
  C4. A component created while the coordinator's flag is active and no interval is
  scheduled, once its camera reports ready, schedules the guarded interval and stores
  its handle, with no call of start. In the same step it takes a screenshot and, if the
  camera has a frame, notifies the coordinator and sends the frame. The new ref starts
  out true, and when the new interval fires it takes a screenshot again and, with a
  frame, sends it.
\<close>

theorem resume_on_create:
  assumes "\<not> webcamRef s" "\<not> crashed s" "isCapturing s" "timers s = []"
  shows "timers (rendered WebcamInit (rendered Mount s)) = [(Suc (lastHandle s), Guarded)] \<and>
         captureInterval (rendered WebcamInit (rendered Mount s)) = Some (Suc (lastHandle s)) \<and>
         isCapturingRef (rendered WebcamInit (rendered Mount s)) \<and>
         calls (rendered Mount s) = calls s \<and>
         calls (rendered WebcamInit (rendered Mount s)) =
           calls s @ GetScreenshot #
             (case frame s of
                None \<Rightarrow> []
              | Some imageSrc \<Rightarrow>
                  if imageSrc = [] then [] else [OnRecognitionStart, Post imageSrc]) \<and>
         calls (rendered (Tick (Suc (lastHandle s))) (rendered WebcamInit (rendered Mount s))) =
           calls (rendered WebcamInit (rendered Mount s)) @ GetScreenshot #
             (case frame s of
                None \<Rightarrow> []
              | Some imageSrc \<Rightarrow>
                  if imageSrc = [] then [] else [OnRecognitionStart, Post imageSrc])"
proof -
  define m where "m = rendered Mount s"
  have m: "m = s\<lparr>captureInterval := None, isCameraReady := False,
               isCapturingRef := isCapturing s, webcamRef := True\<rparr>"
    using assms(1,2) by (simp add: m_def rendered_Mount mount_unfold)
  define h where "h = handleWebcamInit m"
  have h: "h = m\<lparr>isCameraReady := True\<rparr>" by (simp add: h_def handleWebcamInit_def)
  define v where "v = m\<lparr>isCameraReady := True,
      timers := [(Suc (lastHandle s), Guarded)],
      lastHandle := Suc (lastHandle s),
      captureInterval := Some (Suc (lastHandle s))\<rparr>"
  define w where "w = captureAndRecognize v"
  have 1: "\<not> sameRender m h" "webcamRef h" "\<not> crashed h" "\<not> appRenders m h"
    using assms(2) by (simp_all add: h m sameRender_def appRenders_def)
  have 2: "commitEffects m h = w"
    using assms(3,4)
    by (simp add: commitEffects_def Let_def resumeCapture_fires h m v_def w_def)
  have 3: "rerender h w = w"
    using captureAndRecognize_shows [of h v] assms(2)
    by (intro rerender_settled) (simp_all add: h m v_def w_def)
  have "rendered WebcamInit m = rerender m h" by (simp add: h_def m rendered_handler)
  also have "\<dots> = w" using 1 2 3 by (simp add: rerender_go)
  finally have t: "rendered WebcamInit (rendered Mount s) = w"
    by (simp only: m_def)
  have vf: "webcamRef v" "isCapturingRef v" "frame v = frame s" "calls v = calls s"
    using assms(3) by (simp_all add: v_def m)
  then have c: "calls w =
           calls s @ GetScreenshot #
             (case frame s of
                None \<Rightarrow> []
              | Some imageSrc \<Rightarrow>
                  if imageSrc = [] then [] else [OnRecognitionStart, Post imageSrc])"
    using captureAndRecognize_calls [of v] by (simp add: w_def)
  have wf: "timers w = [(Suc (lastHandle s), Guarded)]"
    "captureInterval w = Some (Suc (lastHandle s))"
    "isCapturingRef w" "webcamRef w" "frame w = frame s" "\<not> crashed w" "isCapturing w"
    using assms(2,3) by (simp_all add: w_def v_def m)
  have "handle (Tick (Suc (lastHandle s))) w w = captureAndRecognize w"
    using wf by simp
  moreover have "rerender w (captureAndRecognize w) = captureAndRecognize w"
    using wf captureAndRecognize_shows [of w w] by (intro rerender_settled) simp_all
  ultimately have "rendered (Tick (Suc (lastHandle s))) w = captureAndRecognize w"
    by (simp add: rendered_handler)
  then have k: "calls (rendered (Tick (Suc (lastHandle s))) w) =
           calls w @ GetScreenshot #
             (case frame s of
                None \<Rightarrow> []
              | Some imageSrc \<Rightarrow>
                  if imageSrc = [] then [] else [OnRecognitionStart, Post imageSrc])"
    using wf captureAndRecognize_calls [of w] by simp
  have "calls (rendered Mount s) = calls s"
    using m by (simp only: m_def) simp
  then show ?thesis
    using c k wf(1,2,3) by (simp only: t)
qed

theorem resume_on_create_witness:
  "\<not> webcamRef unmountedWorld \<and> \<not> crashed unmountedWorld \<and> isCapturing unmountedWorld \<and>
   timers unmountedWorld = [] \<and>
   timers (rendered WebcamInit (rendered Mount unmountedWorld)) = [(2, Guarded)] \<and>
   captureInterval (rendered WebcamInit (rendered Mount unmountedWorld)) = Some 2 \<and>
   calls (rendered WebcamInit (rendered Mount unmountedWorld)) =
     [OnStartCapture, GetScreenshot, OnRecognitionStart, Post ''jpeg''] \<and>
   calls (rendered (Tick 2) (rendered WebcamInit (rendered Mount unmountedWorld))) =
     [OnStartCapture, GetScreenshot, OnRecognitionStart, Post ''jpeg'',
      GetScreenshot, OnRecognitionStart, Post ''jpeg'']"
proof -
  have a: "\<not> webcamRef unmountedWorld" "\<not> crashed unmountedWorld" "isCapturing unmountedWorld"
    "timers unmountedWorld = []"
    by (simp_all add: unmountedWorld_eq init_def)
  have l: "Suc (lastHandle unmountedWorld) = 2" "frame unmountedWorld = Some ''jpeg''"
    "calls unmountedWorld = [OnStartCapture]"
    by (simp_all add: unmountedWorld_eq init_def)
  from resume_on_create [OF a] show ?thesis
    using a by (simp add: l)
qed

text \<open>
  C5. A confidence gets the high class exactly from 0.8 up, the medium class exactly from
  0.5 up to but not including 0.8, and the low class exactly below 0.5; 0.8 is high,
  0.79999 and 0.5 are medium, 0.49999 is low.
\<close>

theorem confidence_tiers:
  "(getConfidenceColor c = ''high-confidence'' \<longleftrightarrow> c \<ge> 0.8) \<and>
   (getConfidenceColor c = ''medium-confidence'' \<longleftrightarrow> 0.5 \<le> c \<and> c < 0.8) \<and>
   (getConfidenceColor c = ''low-confidence'' \<longleftrightarrow> c < 0.5) \<and>
   getConfidenceColor 0.8 = ''high-confidence'' \<and>
   getConfidenceColor 0.79999 = ''medium-confidence'' \<and>
   getConfidenceColor 0.5 = ''medium-confidence'' \<and>
   getConfidenceColor 0.49999 = ''low-confidence''"
  by (simp add: getConfidenceColor_def)

text \<open>
  C6. A body whose \<open>objects\<close> is a table of scores and not a list of detections is not
  rejected: the table is handed to \<open>onObjectsRecognized\<close>, no error is set, and the
  render that follows throws in \<open>ObjectRecognition\<close>, which takes the page down with its
  interval. A body with \<open>detections\<close> in place of \<open>objects\<close> is rejected, as it should be.
\<close>

theorem other_shape_accepted:
  "\<not> hasDetectionList (JObj [(''objects'', scoreTable)]) \<and>
   respond (Resolved (JObj [(''objects'', scoreTable)])) = Inr scoreTable \<and>
   calls (settle (Resolved (JObj [(''objects'', scoreTable)])) pollingWorld) =
     calls pollingWorld @ [OnObjectsRecognized scoreTable] \<and>
   error (settle (Resolved (JObj [(''objects'', scoreTable)])) pollingWorld) = None \<and>
   \<not> presentable scoreTable \<and>
   crashed (rendered (Reply (Resolved (JObj [(''objects'', scoreTable)]))) pollingWorld) \<and>
   \<not> webcamRef (rendered (Reply (Resolved (JObj [(''objects'', scoreTable)]))) pollingWorld) \<and>
   timers (rendered (Reply (Resolved (JObj [(''objects'', scoreTable)]))) pollingWorld) = [] \<and>
   respond (Resolved (JObj [(''detections'', JArr [])])) = Inl invalidResponse"
proof -
  have "rendered (Reply (Resolved (JObj [(''objects'', scoreTable)]))) pollingWorld =
      pollingWorld\<lparr>inflight := 0, recognizedObjects := scoreTable, isRecognizing := False,
        calls := calls pollingWorld @ [OnObjectsRecognized scoreTable],
        captureInterval := None, timers := [], cleared := [1], webcamRef := False,
        crashed := True\<rparr>"
    by (simp add: pollingWorld_eq scoreTable_def) (simp add: run_defs)
  then show ?thesis
    by (simp add: hasDetectionList_def scoreTable_def settle_def handleObjectsRecognized_def
        pollingWorld_eq init_def)
qed




text \<open>
  C9. A failed request sets the error message, clears the in-progress flag and records
  the call of \<open>onError\<close>; the stored detections are the ones from before, also after the
  renders that follow, and also when the camera itself reports an error.
\<close>

theorem error_keeps_detections:
  "respond r = Inl m \<Longrightarrow>
   settle r s = s\<lparr>error := Some m, isRecognizing := False, calls := calls s @ [OnError m]\<rparr> \<and>
   recognizedObjects (settle r s) = recognizedObjects s \<and>
   recognizedObjects (rendered (Reply r) s) = recognizedObjects s \<and>
   recognizedObjects (rendered (WebcamError name message) s) = recognizedObjects s"
  by (simp add: settle_failure handleWebcamError_def handleError_def rendered_handler)

theorem error_keeps_detections_witness:
  "respond (Rejected ''Network Error'') = Inl ''Network Error'' \<and>
   recognizedObjects recognizedWorld = catList \<and>
   recognizedObjects (rendered (Reply (Rejected ''Network Error'')) recognizedWorld) = catList \<and>
   error (settle (Rejected ''Network Error'') recognizedWorld) = Some ''Network Error'' \<and>
   \<not> isRecognizing (settle (Rejected ''Network Error'') recognizedWorld)"
proof -
  have f: "respond (Rejected ''Network Error'') = Inl ''Network Error''" by simp
  note k = error_keeps_detections [OF f, of recognizedWorld]
  have "recognizedObjects recognizedWorld = catList" by (simp add: recognizedWorld_eq init_def)
  moreover from k have
    "recognizedObjects (rendered (Reply (Rejected ''Network Error'')) recognizedWorld) =
       recognizedObjects recognizedWorld"
    by blast
  moreover from k have "settle (Rejected ''Network Error'') recognizedWorld =
      recognizedWorld\<lparr>error := Some ''Network Error'', isRecognizing := False,
        calls := calls recognizedWorld @ [OnError ''Network Error'']\<rparr>"
    by blast
  ultimately show ?thesis using f by simp
qed

text \<open>
  C10. With no webcam handle, \<open>captureAndRecognize\<close> returns at once and leaves the world
  as it was, whatever the active flag and its ref say: no callback of the coordinator is
  invoked, no screenshot is taken, no request is sent. The same holds when either kind
  of interval fires.
\<close>

theorem no_webcam_no_callback:
  "\<not> webcamRef s \<Longrightarrow>
   captureAndRecognize s = s \<and> fire Direct s = s \<and> fire Guarded s = s"
  by (simp add: captureAndRecognize_def)

theorem no_webcam_no_callback_witness:
  "\<not> webcamRef unmountedWorld \<and> isCapturingRef unmountedWorld \<and>
   isCapturing unmountedWorld \<and> frame unmountedWorld = Some ''jpeg'' \<and>
   calls (captureAndRecognize unmountedWorld) = [OnStartCapture] \<and>
   captureAndRecognize unmountedWorld = unmountedWorld"
proof -
  have u: "\<not> webcamRef unmountedWorld" by (simp add: unmountedWorld_eq init_def)
  show ?thesis
    using u no_webcam_no_callback [OF u] by (simp add: unmountedWorld_eq init_def)
qed

end
